theory Spec2Isabelle
  imports Main
begin

unbundle bit_operations_syntax

section \<open>Exceptions\<close>

text \<open>
  The exceptions the modelled code raises. \<open>KeyError\<close> carries the key it was raised
  with; \<open>UserError\<close> stands for any exception raised by user code (a callback).
\<close>

datatype error =
    ValueError
  | KeyError string
  | AttributeError
  | RecursionError
  | SyntaxError
  | UserError nat

section \<open>collections: \<open>IdentifierDict\<close>\<close>

subsection \<open>The string built-ins used by \<open>_format_key\<close>\<close>

text \<open>
  Keys are \<open>str\<close> values. The model works on the ASCII range, where the built-ins are as
  follows: \<open>str.isspace\<close> holds for the code points 9 to 13 and 28 to 32,
  \<open>str.isalpha\<close> for the letters, \<open>str.casefold\<close> lowers the capital letters, and
  \<open>str.isidentifier\<close> accepts a letter or underscore followed by letters, digits and
  underscores (keywords are identifiers for \<open>isidentifier\<close>).
\<close>

definition py_isspace :: "char \<Rightarrow> bool" where
  "py_isspace c = (let n = (of_char c :: nat) in (9 \<le> n \<and> n \<le> 13) \<or> (28 \<le> n \<and> n \<le> 32))"

definition py_isupper :: "char \<Rightarrow> bool" where
  "py_isupper c = (let n = (of_char c :: nat) in 65 \<le> n \<and> n \<le> 90)"

definition py_islower :: "char \<Rightarrow> bool" where
  "py_islower c = (let n = (of_char c :: nat) in 97 \<le> n \<and> n \<le> 122)"

definition py_isalpha :: "char \<Rightarrow> bool" where
  "py_isalpha c = (py_isupper c \<or> py_islower c)"

definition py_isdigit :: "char \<Rightarrow> bool" where
  "py_isdigit c = (let n = (of_char c :: nat) in 48 \<le> n \<and> n \<le> 57)"

definition casefold_char :: "char \<Rightarrow> char" where
  "casefold_char c = (if py_isupper c then char_of (of_char c + (32 :: nat)) else c)"

definition casefold :: "string \<Rightarrow> string" where
  "casefold s = map casefold_char s"

definition strip :: "string \<Rightarrow> string" where
  "strip s = rev (dropWhile py_isspace (rev (dropWhile py_isspace s)))"

text \<open>\<open>str.split()\<close> with no argument: the maximal runs of non-whitespace characters.\<close>

function split :: "string \<Rightarrow> string list" where
  "split s =
     (let s' = dropWhile py_isspace s
      in if s' = [] then []
         else takeWhile (\<lambda>c. \<not> py_isspace c) s' # split (dropWhile (\<lambda>c. \<not> py_isspace c) s'))"
  by pat_completeness auto
termination
proof (relation "measure length", goal_cases)
  case 1
  show ?case by simp
next
  case (2 s s')
  then obtain c cs where s': "s' = c # cs" and c: "\<not> py_isspace c"
    by (metis dropWhile_eq_Nil_conv hd_dropWhile list.collapse list.set_sel(1))
  have "length (dropWhile (\<lambda>c. \<not> py_isspace c) s') \<le> length cs"
    using s' c by (simp add: length_dropWhile_le)
  also have "\<dots> < length s'" using s' by simp
  also have "\<dots> \<le> length s" using 2 by (simp add: length_dropWhile_le)
  finally show ?case by simp
qed

declare split.simps [simp del]

fun join :: "string \<Rightarrow> string list \<Rightarrow> string" where
  "join sep [] = []"
| "join sep [w] = w"
| "join sep (w # ws) = w @ sep @ join sep ws"

definition replace :: "char \<Rightarrow> char \<Rightarrow> string \<Rightarrow> string" where
  "replace old new s = map (\<lambda>c. if c = old then new else c) s"

definition isidentifier :: "string \<Rightarrow> bool" where
  "isidentifier s =
     (case s of
        [] \<Rightarrow> False
      | c # cs \<Rightarrow> (py_isalpha c \<or> c = CHR ''_'')
                 \<and> list_all (\<lambda>d. py_isalpha d \<or> py_isdigit d \<or> d = CHR ''_'') cs)"

subsection \<open>\<open>IdentifierDict._format_key\<close> and the item operations\<close>

text \<open>
  \<open>k[0]\<close> on the empty string raises \<open>IndexError\<close>, which the \<open>except\<close> clause turns
  into \<open>ValueError\<close>, as it does the \<open>ValueError\<close> raised for a non-identifier.
\<close>

definition format_key :: "string \<Rightarrow> error + string" where
  "format_key key =
     (let k = replace (CHR '' '') (CHR ''_'') (casefold (join '' '' (split (strip key))))
      in case k of
           [] \<Rightarrow> Inl ValueError
         | c # _ \<Rightarrow>
             (let k' = (if \<not> py_isalpha c then CHR ''_'' # k else k)
              in if \<not> isidentifier k' then Inl ValueError else Inr k'))"

text \<open>
  An \<open>IdentifierDict\<close> wraps a built-in \<open>dict\<close> in \<open>_object_value_\<close>; \<open>_format_value\<close>
  is the identity of \<open>ComposedCollection\<close>.
\<close>

record 'v IdentifierDict =
  object_value :: "string \<rightharpoonup> 'v"






definition delitem :: "'v IdentifierDict \<Rightarrow> string \<Rightarrow> error + 'v IdentifierDict" where
  "delitem d key =
     (case format_key key of
        Inl e \<Rightarrow> Inl e
      | Inr k \<Rightarrow>
          (case object_value d k of
             None \<Rightarrow> Inl (KeyError key)
           | Some _ \<Rightarrow> Inr (d\<lparr>object_value := (object_value d)(k := None)\<rparr>)))"






subsection \<open>The normalisation as the specification words it\<close>

text \<open>
  The specification describes the key normalisation as: strip, collapse internal whitespace
  runs to single underscores, casefold, and prepend an underscore when the first character is
  not alphabetic. \<open>spec_normalize\<close> follows these words; an empty string has no first
  character and stays empty.
\<close>

function collapse_whitespace :: "string \<Rightarrow> string" where
  "collapse_whitespace [] = []"
| "collapse_whitespace (c # cs) =
     (if py_isspace c then CHR ''_'' # collapse_whitespace (dropWhile py_isspace cs)
      else c # collapse_whitespace cs)"
  by pat_completeness auto
termination
  by (relation "measure length") (auto simp: length_dropWhile_le less_Suc_eq_le)


text \<open>
  Characters an identifier may contain, keys that cannot be formatted (empty after stripping,
  or holding a character that is neither whitespace nor an identifier character), and the
  property of a mapping that none of its stored keys holds a capital letter.
\<close>

definition idchar :: "char \<Rightarrow> bool" where
  "idchar c = (py_isalpha c \<or> py_isdigit c \<or> c = CHR ''_'')"

definition lower_keys :: "'v IdentifierDict \<Rightarrow> bool" where
  "lower_keys d = (\<forall>x\<in>dom (object_value d). \<forall>c\<in>set x. \<not> py_isupper c)"


section \<open>ext.subscription: \<open>Subscribable\<close>\<close>

subsection \<open>Event flags and the instance state\<close>

text \<open>
  \<open>EventFlag\<close> is an \<open>IntFlag\<close> with \<open>ON_SET = 4\<close>, \<open>ON_DEL = 8\<close>, \<open>ON_CALL = 16\<close>,
  \<open>ON_PRE_CALL = 32\<close> and the alias \<open>ON_POST_CALL = ON_CALL\<close>. Iterating the enumeration
  skips the alias, so \<open>__EVENT_FLAGS\<close> is the tuple below. Event masks are Python integers.
\<close>

definition ON_SET :: int where "ON_SET = 4"
definition ON_DEL :: int where "ON_DEL = 8"
definition ON_CALL :: int where "ON_CALL = 16"
definition ON_PRE_CALL :: int where "ON_PRE_CALL = 32"
definition ON_POST_CALL :: int where "ON_POST_CALL = ON_CALL"

definition EVENT_FLAGS :: "int list" where
  "EVENT_FLAGS = [ON_SET, ON_DEL, ON_CALL, ON_PRE_CALL]"

text \<open>
  A callback is a Python callable, compared by identity; it is modelled by a number. Field
  values are arbitrary objects.
\<close>

type_synonym callback = nat

datatype pyobj = PyNone | PyInt int | PyStr string | PyRef nat | PyFunction string

type_synonym registry = "string \<times> int \<rightharpoonup> callback list"

text \<open>
  The state of one \<open>Subscribable\<close> instance is its \<open>__cache__\<close> mapping: whether the entry
  \<open>__mutex__\<close> exists, the entry \<open>__events__\<close> (the callback registry), the entry
  \<open>_is_muted\<close>, and the entries of the generated fields. \<open>event_fields\<close> is the class
  attribute \<open>__event_fields__\<close> as the instance sees it (absent on a class without
  subscribable members). \<open>journal\<close> is state outside the instance that a callback may write,
  as the list \<open>values\<close> of the docstring examples.
\<close>

record subscribable =
  cache_mutex :: bool
  cache_events :: "registry option"
  cache_is_muted :: "bool option"
  cache_fields :: "string \<rightharpoonup> pyobj"
  event_fields :: "(string \<times> int) list option"
  journal :: "(callback \<times> string \<times> int) list"

definition new_instance :: "(string \<times> int) list option \<Rightarrow> subscribable" where
  "new_instance ef =
     \<lparr>cache_mutex = False, cache_events = None, cache_is_muted = None,
      cache_fields = Map.empty, event_fields = ef, journal = []\<rparr>"

text \<open>
  A call that returns gives \<open>Some\<close> of its outcome (a value or the exception raised) and the
  state it leaves; \<open>None\<close> is a call that does not return. A callback is invoked as
  \<open>callback(self, field, event_flags)\<close>; the environment \<open>callbacks\<close> gives the behaviour
  of every callable.
\<close>

type_synonym 'a result = "((error + 'a) \<times> subscribable) option"

type_synonym callbacks = "callback \<Rightarrow> string \<Rightarrow> int \<Rightarrow> subscribable \<Rightarrow> unit result"

subsection \<open>Defining subscribable fields\<close>

text \<open>
  \<open>_SubscribableField.__init__\<close>: with both keywords omitted \<open>on_set\<close> is true and
  \<open>on_del\<close> false, otherwise an omitted keyword is false. \<open>__set_name__\<close> computes the two
  flags and \<open>_set_subscribable_member\<close> records their union under the field's name.
\<close>

definition SubscribableField_init :: "bool option \<Rightarrow> bool option \<Rightarrow> bool \<times> bool" where
  "SubscribableField_init on_set on_del =
     (if on_set = None \<and> on_del = None then (True, False)
      else (on_set = Some True, on_del = Some True))"

definition flag_set :: "bool \<times> bool \<Rightarrow> int" where
  "flag_set f = (if \<not> fst f then 0 else ON_SET)"

definition flag_del :: "bool \<times> bool \<Rightarrow> int" where
  "flag_del f = (if \<not> snd f then 0 else ON_DEL)"

definition set_subscribable_member ::
  "(string \<times> int) list option \<Rightarrow> string \<Rightarrow> int \<Rightarrow> (string \<times> int) list option" where
  "set_subscribable_member ef name flags =
     (case ef of
        None \<Rightarrow> Some [(name, flags)]
      | Some fs \<Rightarrow> Some (if name \<in> fst ` set fs
                        then map (\<lambda>(n, f). if n = name then (n, flags) else (n, f)) fs
                        else fs @ [(name, flags)]))"

subsection \<open>The lazily built registry and the mute state\<close>

definition mutex_get :: "subscribable \<Rightarrow> subscribable" where
  "mutex_get s = s\<lparr>cache_mutex := True\<rparr>"

text \<open>
  \<open>__events__\<close>: the stored registry when there is one. Otherwise, under the mutex, an empty
  registry is stored and filled with an empty list for every declared field and every flag
  of its mask. Reading \<open>__event_fields__\<close> raises \<open>AttributeError\<close> on a class without
  subscribable members, after the empty registry was stored.
\<close>

fun build_events :: "(string \<times> int) list \<Rightarrow> registry \<Rightarrow> registry" where
  "build_events [] cache = cache"
| "build_events ((field, flags) # rest) cache =
     build_events rest
       (fold (\<lambda>flag c. if flags AND flag \<noteq> 0 then c((field, flag) \<mapsto> []) else c)
          EVENT_FLAGS cache)"

definition events_get :: "subscribable \<Rightarrow> (error + registry) \<times> subscribable" where
  "events_get s =
     (case cache_events s of
        Some events \<Rightarrow> (Inr events, s)
      | None \<Rightarrow>
          (let s1 = (mutex_get s)\<lparr>cache_events := Some Map.empty\<rparr>
           in case event_fields s1 of
                None \<Rightarrow> (Inl AttributeError, s1)
              | Some fs \<Rightarrow>
                  (let cache = build_events fs Map.empty
                   in (Inr cache, s1\<lparr>cache_events := Some cache\<rparr>))))"

text \<open>The registry object held by the instance, read at the current state.\<close>

definition events_of :: "subscribable \<Rightarrow> registry" where
  "events_of s = (case cache_events s of None \<Rightarrow> Map.empty | Some events \<Rightarrow> events)"

definition set_queue :: "subscribable \<Rightarrow> string \<times> int \<Rightarrow> callback list \<Rightarrow> subscribable" where
  "set_queue s key queue = s\<lparr>cache_events := Some ((events_of s)(key \<mapsto> queue))\<rparr>"

definition is_muted :: "subscribable \<Rightarrow> bool \<times> subscribable" where
  "is_muted s =
     (case cache_is_muted s of
        Some m \<Rightarrow> (m, s)
      | None \<Rightarrow> (False, s\<lparr>cache_is_muted := Some False\<rparr>))"

definition mute :: "subscribable \<Rightarrow> subscribable" where
  "mute s = s\<lparr>cache_is_muted := Some True\<rparr>"

definition unmute :: "subscribable \<Rightarrow> subscribable" where
  "unmute s = s\<lparr>cache_is_muted := Some False\<rparr>"

text \<open>
  \<open>suppressed\<close> is a context manager: it reads \<open>cache['_is_muted']\<close> directly (a
  \<open>KeyError\<close> when the entry is absent), mutes, runs the body of the \<open>with\<close> statement,
  and in its \<open>finally\<close> clause writes the value read back, whether the body returned or
  raised.
\<close>

definition suppressed :: "(subscribable \<Rightarrow> 'a result) \<Rightarrow> subscribable \<Rightarrow> 'a result" where
  "suppressed body s =
     (case cache_is_muted s of
        None \<Rightarrow> Some (Inl (KeyError ''_is_muted''), s)
      | Some m \<Rightarrow>
          (case body (s\<lparr>cache_is_muted := Some True\<rparr>) of
             None \<Rightarrow> None
           | Some (r, s') \<Rightarrow> Some (r, s'\<lparr>cache_is_muted := Some m\<rparr>)))"

subsection \<open>Notification\<close>

text \<open>
  \<open>for callback in queue: callback(self, field, event_flags)\<close> iterates the list object
  that the registry holds. The methods of the instance change a queue only in place
  (\<open>append\<close>, \<open>remove\<close>, \<open>clear\<close>), so the list iterator, which keeps an index, reads
  the current content of the queue at every step. The loop need not end: a callback may
  append to the queue it is called from. No method removes a queue from the registry; the
  model ends the loop should the queue be missing.
\<close>

partial_function (option) call_queue ::
  "callbacks \<Rightarrow> string \<Rightarrow> int \<Rightarrow> int \<Rightarrow> nat \<Rightarrow> subscribable \<Rightarrow> ((error + unit) \<times> subscribable) option"
where [code]:
  "call_queue call field flag event_flags i s =
     (case events_of s (field, flag) of
        None \<Rightarrow> Some (Inr (), s)
      | Some queue \<Rightarrow>
          if i < length queue then
            (case call (queue ! i) field event_flags s of
               None \<Rightarrow> None
             | Some (Inl e, s') \<Rightarrow> Some (Inl e, s')
             | Some (Inr u, s') \<Rightarrow> call_queue call field flag event_flags (Suc i) s')
          else Some (Inr (), s))"

text \<open>\<open>_notify\<close>: the loop over \<open>__EVENT_FLAGS\<close>, after the registry was fetched.\<close>

fun notify_flags :: "callbacks \<Rightarrow> string \<Rightarrow> int \<Rightarrow> int list \<Rightarrow> subscribable \<Rightarrow> unit result" where
  "notify_flags call field event_flags [] s = Some (Inr (), s)"
| "notify_flags call field event_flags (flag # flags) s =
     (if event_flags AND flag \<noteq> 0 then
        (case events_of s (field, flag) of
           None \<Rightarrow> Some (Inl ValueError, s)
         | Some queue \<Rightarrow>
             (case call_queue call field flag event_flags 0 s of
                None \<Rightarrow> None
              | Some (Inl e, s') \<Rightarrow> Some (Inl e, s')
              | Some (Inr u, s') \<Rightarrow> notify_flags call field event_flags flags s'))
      else notify_flags call field event_flags flags s)"

definition notify_inner :: "callbacks \<Rightarrow> string \<Rightarrow> int \<Rightarrow> subscribable \<Rightarrow> unit result" where
  "notify_inner call field event_flags s =
     (case events_get s of
        (Inl e, s') \<Rightarrow> Some (Inl e, s')
      | (Inr events, s') \<Rightarrow> notify_flags call field event_flags EVENT_FLAGS s')"

definition notify :: "callbacks \<Rightarrow> string \<Rightarrow> int \<Rightarrow> subscribable \<Rightarrow> unit result" where
  "notify call field event_flags s =
     (case is_muted s of
        (m, s') \<Rightarrow> if \<not> m then notify_inner call field event_flags s' else Some (Inr (), s'))"

definition notify_once :: "callbacks \<Rightarrow> string \<Rightarrow> int \<Rightarrow> subscribable \<Rightarrow> unit result" where
  "notify_once call field event_flags s =
     (case is_muted s of
        (m, s') \<Rightarrow>
          if \<not> m then suppressed (notify_inner call field event_flags) s'
          else Some (Inr (), s'))"

subsection \<open>Subscribing and unsubscribing\<close>

definition iter_queue_keys :: "string \<Rightarrow> int \<Rightarrow> (string \<times> int) list" where
  "iter_queue_keys field event_flags =
     map (\<lambda>flag. (field, flag)) (filter (\<lambda>flag. event_flags AND flag \<noteq> 0) EVENT_FLAGS)"

fun subscribe_keys ::
  "(string \<times> int) list \<Rightarrow> callback \<Rightarrow> subscribable \<Rightarrow> (error + callback) \<times> subscribable" where
  "subscribe_keys [] callback s = (Inr callback, s)"
| "subscribe_keys (key # keys) callback s =
     (case events_of s key of
        None \<Rightarrow> (Inl ValueError, s)
      | Some queue \<Rightarrow>
          subscribe_keys keys callback
            (if callback \<notin> set queue then set_queue s key (queue @ [callback]) else s))"

definition subscribe ::
  "string \<Rightarrow> int \<Rightarrow> callback \<Rightarrow> subscribable \<Rightarrow> (error + callback) \<times> subscribable" where
  "subscribe field event_flags callback s =
     (case events_get (mutex_get s) of
        (Inl e, s') \<Rightarrow> (Inl e, s')
      | (Inr events, s') \<Rightarrow> subscribe_keys (iter_queue_keys field event_flags) callback s')"

fun unsubscribe_keys ::
  "(string \<times> int) list \<Rightarrow> callback \<Rightarrow> subscribable \<Rightarrow> (error + unit) \<times> subscribable" where
  "unsubscribe_keys [] callback s = (Inr (), s)"
| "unsubscribe_keys (key # keys) callback s =
     (case events_of s key of
        None \<Rightarrow> (Inl ValueError, s)
      | Some queue \<Rightarrow> unsubscribe_keys keys callback (set_queue s key (remove1 callback queue)))"

definition unsubscribe ::
  "string \<Rightarrow> int \<Rightarrow> callback \<Rightarrow> subscribable \<Rightarrow> (error + unit) \<times> subscribable" where
  "unsubscribe field event_flags callback s =
     (case events_get (mutex_get s) of
        (Inl e, s') \<Rightarrow> (Inl e, s')
      | (Inr events, s') \<Rightarrow> unsubscribe_keys (iter_queue_keys field event_flags) callback s')"

definition clear_queues :: "(string \<times> int \<Rightarrow> bool) \<Rightarrow> subscribable \<Rightarrow> subscribable" where
  "clear_queues which s =
     s\<lparr>cache_events :=
         Some (\<lambda>key. case events_of s key of
                       None \<Rightarrow> None
                     | Some queue \<Rightarrow> if which key then Some [] else Some queue)\<rparr>"

definition unsubscribe_all ::
  "string option \<Rightarrow> int \<Rightarrow> subscribable \<Rightarrow> (error + unit) \<times> subscribable" where
  "unsubscribe_all field event_flags s =
     (case events_get (mutex_get s) of
        (Inl e, s') \<Rightarrow> (Inl e, s')
      | (Inr events, s') \<Rightarrow>
          if field = None \<and> event_flags = 0 then (Inr (), clear_queues (\<lambda>key. True) s')
          else
            (case (case field of
                     None \<Rightarrow> map_option (map fst) (event_fields s')
                   | Some f \<Rightarrow> Some [f]) of
               None \<Rightarrow> (Inl AttributeError, s')
             | Some names \<Rightarrow>
                 (Inr (),
                  clear_queues
                    (\<lambda>(f, flag). f \<in> set names \<and> (event_flags = 0 \<or> event_flags AND flag \<noteq> 0))
                    s')))"

subsection \<open>The generated accessors of a subscribable field\<close>

text \<open>
  For a field without getter, setter and deleter, \<open>__set_name__\<close> generates
  \<open>subscribable_field_fset\<close>: it stores the value in \<open>__cache__\<close> and then, when the field
  was defined with \<open>on_set\<close>, calls \<open>self.notify(name, flag_set)\<close>. For a field with a
  setter of its own, the generated wrapper calls that setter and then \<open>notify\<close>.
\<close>

definition subscribable_field_fset ::
  "callbacks \<Rightarrow> string \<Rightarrow> int \<Rightarrow> pyobj \<Rightarrow> subscribable \<Rightarrow> unit result" where
  "subscribable_field_fset call name flag val s =
     (let s' = s\<lparr>cache_fields := (cache_fields s)(name \<mapsto> val)\<rparr>
      in if flag \<noteq> 0 then notify call name flag s' else Some (Inr (), s'))"


subsection \<open>Callbacks written against the instance's methods\<close>

text \<open>
  To run concrete scenarios, a callback is given as the list of statements of its body,
  each a use of the instance it receives: \<open>Record\<close> appends the callback's arguments to the
  journal, as the callbacks of the docstring examples do. A call of a callback uses one
  level of the interpreter's call stack; when none is left the call raises
  \<open>RecursionError\<close>, as the docstring of \<open>subscribe\<close> says.
\<close>

datatype action =
    Record
  | Mute
  | Unmute
  | Notify string int
  | NotifyOnce string int
  | SetField string pyobj
  | Subscribe string int callback
  | Unsubscribe string int callback
  | RaiseError nat

fun run_action ::
  "callbacks \<Rightarrow> callback \<Rightarrow> string \<Rightarrow> int \<Rightarrow> action \<Rightarrow> subscribable \<Rightarrow> unit result" where
  "run_action call cb field ef Record s = Some (Inr (), s\<lparr>journal := journal s @ [(cb, field, ef)]\<rparr>)"
| "run_action call cb field ef Mute s = Some (Inr (), mute s)"
| "run_action call cb field ef Unmute s = Some (Inr (), unmute s)"
| "run_action call cb field ef (Notify f e) s = notify call f e s"
| "run_action call cb field ef (NotifyOnce f e) s = notify_once call f e s"
| "run_action call cb field ef (SetField f v) s = subscribable_field_fset call f ON_SET v s"
| "run_action call cb field ef (Subscribe f e c) s =
     (case subscribe f e c s of (Inl x, s') \<Rightarrow> Some (Inl x, s') | (Inr c', s') \<Rightarrow> Some (Inr (), s'))"
| "run_action call cb field ef (Unsubscribe f e c) s = Some (unsubscribe f e c s)"
| "run_action call cb field ef (RaiseError n) s = Some (Inl (UserError n), s)"

fun run_body ::
  "callbacks \<Rightarrow> callback \<Rightarrow> string \<Rightarrow> int \<Rightarrow> action list \<Rightarrow> subscribable \<Rightarrow> unit result" where
  "run_body call cb field ef [] s = Some (Inr (), s)"
| "run_body call cb field ef (a # as) s =
     (case run_action call cb field ef a s of
        None \<Rightarrow> None
      | Some (Inl e, s') \<Rightarrow> Some (Inl e, s')
      | Some (Inr u, s') \<Rightarrow> run_body call cb field ef as s')"

primrec callbacks_at :: "(callback \<Rightarrow> action list) \<Rightarrow> nat \<Rightarrow> callbacks" where
  "callbacks_at bodies 0 = (\<lambda>cb field ef s. Some (Inl RecursionError, s))"
| "callbacks_at bodies (Suc depth) =
     (\<lambda>cb field ef s. run_body (callbacks_at bodies depth) cb field ef (bodies cb) s)"

subsection \<open>Invoking a list of callbacks in order\<close>

text \<open>
  What it means to invoke the callbacks \<open>cbs\<close> in order, each as
  \<open>callback(self, field, event_flags)\<close>: the statements run one after the other, and an
  exception raised by one of them ends the sequence.
\<close>

fun call_each :: "callbacks \<Rightarrow> string \<Rightarrow> int \<Rightarrow> callback list \<Rightarrow> subscribable \<Rightarrow> unit result" where
  "call_each call field event_flags [] s = Some (Inr (), s)"
| "call_each call field event_flags (cb # cbs) s =
     (case call cb field event_flags s of
        None \<Rightarrow> None
      | Some (Inl e, s') \<Rightarrow> Some (Inl e, s')
      | Some (Inr u, s') \<Rightarrow> call_each call field event_flags cbs s')"

subsection \<open>Conditions on callbacks, reachable states, scenarios\<close>

text \<open>
  \<open>keeps_queue\<close>: every callback of the queue, called while the queue of \<open>(field, flag)\<close>
  is \<open>queue\<close>, returns (normally or with an exception) and leaves that queue as it is.
  \<open>keeps_muted\<close>: no callback, called on a muted instance, leaves it unmuted.
  \<open>while_muted\<close> restricts an environment to calls made on a muted instance: a callback
  called on an instance that is not muted does not return.
\<close>

definition keeps_queue :: "callbacks \<Rightarrow> string \<Rightarrow> int \<Rightarrow> int \<Rightarrow> callback list \<Rightarrow> bool" where
  "keeps_queue call field flag event_flags queue =
     (\<forall>cb\<in>set queue. \<forall>s. events_of s (field, flag) = Some queue \<longrightarrow>
        (\<exists>r s'. call cb field event_flags s = Some (r, s')
                 \<and> events_of s' (field, flag) = Some queue))"



text \<open>
  The states an instance can be in: a new instance, and from there any number of steps, each
  the lazy construction of the registry, a \<open>subscribe\<close>, an \<open>unsubscribe\<close>, an
  \<open>unsubscribe_all\<close>, or anything that leaves the registry entry of \<open>__cache__\<close> alone
  (muting, storing a field, writing the journal).
\<close>

inductive api_reachable :: "subscribable \<Rightarrow> bool" where
  new: "api_reachable (new_instance ef)"
| events: "api_reachable s \<Longrightarrow> api_reachable (snd (events_get s))"
| subscribe: "api_reachable s \<Longrightarrow> api_reachable (snd (subscribe field event_flags cb s))"
| unsubscribe: "api_reachable s \<Longrightarrow> api_reachable (snd (unsubscribe field event_flags cb s))"
| unsubscribe_all: "api_reachable s \<Longrightarrow> api_reachable (snd (unsubscribe_all fld event_flags s))"
| other: "api_reachable s \<Longrightarrow> cache_events s' = cache_events s \<Longrightarrow> api_reachable s'"

definition after :: "'a result \<Rightarrow> (subscribable \<Rightarrow> 'b) \<Rightarrow> 'b option" where
  "after r f = map_option (f \<circ> snd) r"

definition outcome :: "'a result \<Rightarrow> (error + 'a) option" where
  "outcome r = map_option fst r"

definition queue_at :: "string \<Rightarrow> int \<Rightarrow> subscribable \<Rightarrow> callback list option" where
  "queue_at field flag s = events_of s (field, flag)"


text \<open>
  Scenarios: a class with the fields \<open>x\<close> and \<open>y\<close>, both defined with \<open>on_set\<close>; callback 1
  subscribed to \<open>x\<close>, then callback 2 subscribed to \<open>x\<close> (\<open>two_on_x\<close>), or callback 2
  subscribed to \<open>y\<close> (\<open>one_each\<close>). \<open>recorder\<close> callbacks only record their call;
  \<open>one_shot\<close> makes callback 1 unsubscribe itself after recording; \<open>failing\<close> makes
  callback 1 raise; \<open>unmuting\<close> makes callback 1 unmute the instance and then assign the
  field \<open>y\<close>; \<open>assigning\<close> makes callback 1 assign the field \<open>y\<close>.
\<close>

definition xy_class :: "(string \<times> int) list option" where
  "xy_class =
     set_subscribable_member
       (set_subscribable_member None ''x''
          (flag_set (SubscribableField_init None None) OR flag_del (SubscribableField_init None None)))
       ''y'' (flag_set (SubscribableField_init None None) OR flag_del (SubscribableField_init None None))"

definition two_on_x :: subscribable where
  "two_on_x = snd (subscribe ''x'' ON_SET 2 (snd (subscribe ''x'' ON_SET 1 (new_instance xy_class))))"


definition recorder :: "callback \<Rightarrow> action list" where
  "recorder cb = [Record]"

definition one_shot :: "callback \<Rightarrow> action list" where
  "one_shot cb = (if cb = 1 then [Record, Unsubscribe ''x'' ON_SET 1] else [Record])"

definition failing :: "callback \<Rightarrow> action list" where
  "failing cb = (if cb = 1 then [RaiseError 0] else [Record])"



definition distinct_queues :: "subscribable \<Rightarrow> bool" where
  "distinct_queues s = (\<forall>key queue. events_of s key = Some queue \<longrightarrow> distinct queue)"

definition requeue :: "callback \<Rightarrow> action list" where
  "requeue cb =
     (if cb = 1 then [Record, Unsubscribe ''x'' ON_SET 1, Subscribe ''x'' ON_SET 1] else [Record])"



section \<open>_shared: \<open>create_function\<close>\<close>

text \<open>
  A \<open>dict\<close> keeps its keys in insertion order; assigning to a key that is present keeps
  its position. Dictionaries are objects: the interpreter state holds them at addresses,
  so that a copy and the original are told apart. \<open>sys.modules\<close> maps a module name to the
  address of the module's \<open>__dict__\<close>; \<open>default_module\<close> is the \<open>__dict__\<close> of the
  dummy module \<open>create_module('')\<close> bound to \<open>__default_module\<close>, whose \<open>__name__\<close> is the
  empty string.
\<close>

type_synonym pydict = "(string \<times> pyobj) list"



record interpreter =
  heap :: "pydict list"
  sys_modules :: "string \<rightharpoonup> nat"
  default_module :: nat











text \<open>
  The global scope: \<open>globals\<close> when given, else the dictionary of the module named
  \<open>module\<close> when \<open>sys.modules\<close> has it, else the dictionary of the dummy module.
\<close>

definition globals_for :: "interpreter \<Rightarrow> nat option \<Rightarrow> string \<Rightarrow> nat" where
  "globals_for st globals module =
     (case globals of
        Some g \<Rightarrow> g
      | None \<Rightarrow> (case sys_modules st module of Some g \<Rightarrow> g | None \<Rightarrow> default_module st))"




section \<open>Properties of \<open>IdentifierDict\<close>\<close>

subsection \<open>The source normalisation agrees with the specification's\<close>


lemma split_Nil [simp]: "split [] = []"
  by (simp add: split.simps)





lemma of_char_casefold_char:
  "(of_char (casefold_char c) :: nat) = (if py_isupper c then of_char c + 32 else of_char c)"
  by (simp add: casefold_char_def py_isupper_def Let_def)

lemma char_eq_nat_iff: "c = d \<longleftrightarrow> (of_char c :: nat) = of_char d"
  by (simp add: of_char_eq_iff)


lemma isspace_casefold_char [simp]: "py_isspace (casefold_char c) = py_isspace c"
  by (simp add: py_isspace_def of_char_casefold_char Let_def) (simp add: py_isupper_def Let_def)

lemma casefold_char_underscore [simp]: "casefold_char (CHR ''_'') = CHR ''_''"
  by (simp add: casefold_char_def py_isupper_def)

lemma casefold_char_idem [simp]: "casefold_char (casefold_char c) = casefold_char c"
  by (simp add: char_eq_nat_iff [of "casefold_char (casefold_char c)"] of_char_casefold_char)
     (simp add: py_isupper_def of_char_casefold_char Let_def)

lemma isspace_space [simp]: "py_isspace (CHR '' '')"
  by (simp add: py_isspace_def)






subsection \<open>Which keys are formattable; case-insensitivity\<close>

lemma isalpha_casefold_char [simp]: "py_isalpha (casefold_char c) = py_isalpha c"
  by (simp add: py_isalpha_def py_isupper_def [of "casefold_char c"] py_islower_def [of "casefold_char c"]
        of_char_casefold_char Let_def) (auto simp: py_isupper_def py_islower_def Let_def)

lemma isdigit_casefold_char [simp]: "py_isdigit (casefold_char c) = py_isdigit c"
  by (simp add: py_isdigit_def of_char_casefold_char Let_def) (auto simp: py_isupper_def Let_def)

lemma casefold_char_eq_underscore [simp]: "casefold_char c = CHR ''_'' \<longleftrightarrow> c = CHR ''_''"
  by (simp add: char_eq_nat_iff [of _ "CHR ''_''"] of_char_casefold_char py_isupper_def Let_def)

lemma idchar_casefold_char [simp]: "idchar (casefold_char c) = idchar c"
  by (simp add: idchar_def)

lemma not_isupper_casefold_char [simp]: "\<not> py_isupper (casefold_char c)"
  by (simp add: py_isupper_def [of "casefold_char c"] of_char_casefold_char Let_def)
     (auto simp: py_isupper_def Let_def)

lemma idchar_not_space: "idchar c \<Longrightarrow> \<not> py_isspace c"
  by (auto simp: idchar_def py_isalpha_def py_isupper_def py_islower_def py_isdigit_def
        py_isspace_def Let_def)

lemma collapse_eq_Nil [simp]: "collapse_whitespace s = [] \<longleftrightarrow> s = []"
  by (cases s) auto









lemma casefold_idem [simp]: "casefold (casefold s) = casefold s"
  by (simp add: casefold_def)











lemma lower_keys_delitem: "lower_keys d \<Longrightarrow> delitem d k = Inr d' \<Longrightarrow> lower_keys d'"
  by (auto simp: lower_keys_def delitem_def split: sum.splits option.splits if_splits)

subsection \<open>Evaluations of \<open>_format_key\<close> used below\<close>


subsection \<open>Claims about \<open>IdentifierDict\<close>\<close>











section \<open>Properties of \<open>Subscribable\<close>\<close>

subsection \<open>Auxiliary facts\<close>

lemma events_get_events:
  "events_get s = (Inr ev, s') \<Longrightarrow> cache_events s' = Some ev"
  by (auto simp: events_get_def Let_def split: option.splits)

lemma events_get_events_of:
  "events_get s = (Inr ev, s') \<Longrightarrow> events_of s' = ev"
  by (simp add: events_of_def events_get_events)


lemma call_queue_stable:
  assumes "keeps_queue call field flag ef q"
  shows "events_of s (field, flag) = Some q \<Longrightarrow>
         call_queue call field flag ef i s = call_each call field ef (drop i q) s"
proof (induction "length q - i" arbitrary: i s)
  case 0
  then show ?case by (subst call_queue.simps) simp
next
  case (Suc n)
  then have i: "i < length q" by simp
  then have d: "drop i q = q ! i # drop (Suc i) q" by (simp add: Cons_nth_drop_Suc)
  have "q ! i \<in> set q" using i by simp
  then obtain r s' where c: "call (q ! i) field ef s = Some (r, s')"
    and s': "events_of s' (field, flag) = Some q"
    using assms Suc.prems unfolding keeps_queue_def by blast
  have IH: "call_queue call field flag ef (Suc i) s' = call_each call field ef (drop (Suc i) q) s'"
    using Suc.hyps(1) [of "Suc i" s'] Suc.hyps(2) s' by simp
  show ?case
    by (subst call_queue.simps) (simp add: Suc.prems i d c IH split: sum.splits)
qed

lemma single_flag_and:
  "flag \<in> set EVENT_FLAGS \<Longrightarrow> flag' \<in> set EVENT_FLAGS \<Longrightarrow> flag AND flag' \<noteq> 0 \<longleftrightarrow> flag = flag'"
  by (auto simp: EVENT_FLAGS_def ON_SET_def ON_DEL_def ON_CALL_def ON_PRE_CALL_def)

lemma notify_flags_no_match:
  "\<forall>flag'\<in>set flags. event_flags AND flag' = 0 \<Longrightarrow>
   notify_flags call field event_flags flags s = Some (Inr (), s)"
  by (induction flags) auto

lemma notify_flags_single:
  assumes "flag \<in> set EVENT_FLAGS"
  shows "notify_flags call field flag EVENT_FLAGS s =
     (case events_of s (field, flag) of
        None \<Rightarrow> Some (Inl ValueError, s)
      | Some queue \<Rightarrow>
          (case call_queue call field flag flag 0 s of
             None \<Rightarrow> None
           | Some (Inl e, s') \<Rightarrow> Some (Inl e, s')
           | Some (Inr u, s') \<Rightarrow> Some (Inr (), s')))"
proof -
  consider "flag = 4" | "flag = 8" | "flag = 16" | "flag = 32"
    using assms by (auto simp: EVENT_FLAGS_def ON_SET_def ON_DEL_def ON_CALL_def ON_PRE_CALL_def)
  then show ?thesis
    by cases
      (simp_all add: EVENT_FLAGS_def ON_SET_def ON_DEL_def ON_CALL_def ON_PRE_CALL_def
         split: option.splits sum.splits prod.splits)
qed

lemma result_eta:
  "(case (r :: unit result) of None \<Rightarrow> None | Some (Inl e, s') \<Rightarrow> Some (Inl e, s')
     | Some (Inr u, s') \<Rightarrow> Some (Inr (), s')) = r"
  by (auto split: option.splits sum.splits prod.splits)

lemma notify_inner_single:
  assumes "flag \<in> set EVENT_FLAGS"
    and "events_get s = (Inr events, s0)"
    and "events (field, flag) = Some queue"
    and "keeps_queue call field flag flag queue"
  shows "notify_inner call field flag s = call_each call field flag queue s0"
proof -
  have q: "events_of s0 (field, flag) = Some queue"
    using assms(2,3) by (simp add: events_get_events_of)
  have "call_queue call field flag flag 0 s0 = call_each call field flag queue s0"
    using call_queue_stable [OF assms(4) q, of 0] by simp
  then show ?thesis
    using assms(1,2) q by (simp add: notify_inner_def notify_flags_single result_eta)
qed

lemma iter_queue_keys_single:
  "flag \<in> set EVENT_FLAGS \<Longrightarrow> iter_queue_keys field flag = [(field, flag)]"
  by (auto simp: iter_queue_keys_def EVENT_FLAGS_def ON_SET_def ON_DEL_def ON_CALL_def
        ON_PRE_CALL_def)

lemma subscribe_single:
  assumes "flag \<in> set EVENT_FLAGS"
    and "events_get (mutex_get s) = (Inr events, s0)"
    and "events (field, flag) = Some queue"
  shows "subscribe field flag cb s =
           (Inr cb, if cb \<in> set queue then s0 else set_queue s0 (field, flag) (queue @ [cb]))"
  using assms by (simp add: subscribe_def iter_queue_keys_single events_get_events_of)

lemma is_muted_collapse: "\<not> fst (is_muted s) \<Longrightarrow> is_muted s = (False, snd (is_muted s))"
  by (cases "is_muted s") simp

lemma events_get_collapse:
  "\<not> isl (fst (events_get s)) \<Longrightarrow>
   events_get s = (Inr (events_of (snd (events_get s))), snd (events_get s))"
  by (auto simp: events_get_def events_of_def Let_def split: option.splits)


lemma keeps_queue_recorder: "keeps_queue (callbacks_at recorder 1) field flag ef q"
  by (simp add: keeps_queue_def recorder_def events_of_def)







lemma events_of_mutex_get [simp]: "events_of (mutex_get s) = events_of s"
  by (simp add: events_of_def mutex_get_def)

lemma build_events_queues:
  "build_events fs c key = Some q \<Longrightarrow> q = [] \<or> c key = Some q"
proof (induction fs arbitrary: c)
  case Nil
  then show ?case by simp
next
  case (Cons a fs)
  obtain field flags where a: "a = (field, flags)" by (cases a)
  from Cons.prems Cons.IH [of "fold (\<lambda>flag c. if flags AND flag \<noteq> 0 then c((field, flag) \<mapsto> []) else c)
          EVENT_FLAGS c"] a
  show ?case
    by (auto simp: EVENT_FLAGS_def split: if_splits)
qed

lemma distinct_queues_events_get:
  "distinct_queues s \<Longrightarrow> distinct_queues (snd (events_get s))"
  using build_events_queues [of _ Map.empty]
  by (fastforce simp: distinct_queues_def events_get_def events_of_def mutex_get_def Let_def
        split: option.splits)

lemma distinct_queues_set_queue:
  "distinct_queues s \<Longrightarrow> distinct q \<Longrightarrow> distinct_queues (set_queue s key q)"
  by (auto simp: distinct_queues_def set_queue_def events_of_def)

lemma distinct_queues_subscribe_keys:
  "distinct_queues s \<Longrightarrow> distinct_queues (snd (subscribe_keys keys cb s))"
proof (induction keys arbitrary: s)
  case Nil
  then show ?case by simp
next
  case (Cons key keys)
  show ?case
  proof (cases "events_of s key")
    case None
    then show ?thesis using Cons.prems by simp
  next
    case (Some q)
    then have "distinct q" using Cons.prems unfolding distinct_queues_def by blast
    then have "distinct_queues (if cb \<notin> set q then set_queue s key (q @ [cb]) else s)"
      using Cons.prems by (simp add: distinct_queues_set_queue)
    then show ?thesis using Some Cons.IH by simp
  qed
qed

lemma distinct_queues_unsubscribe_keys:
  "distinct_queues s \<Longrightarrow> distinct_queues (snd (unsubscribe_keys keys cb s))"
proof (induction keys arbitrary: s)
  case Nil
  then show ?case by simp
next
  case (Cons key keys)
  show ?case
  proof (cases "events_of s key")
    case None
    then show ?thesis using Cons.prems by simp
  next
    case (Some q)
    then have "distinct q" using Cons.prems unfolding distinct_queues_def by blast
    then have "distinct_queues (set_queue s key (remove1 cb q))"
      using Cons.prems by (simp add: distinct_queues_set_queue)
    then show ?thesis using Some Cons.IH by simp
  qed
qed

lemma distinct_queues_clear: "distinct_queues s \<Longrightarrow> distinct_queues (clear_queues P s)"
  by (auto simp: distinct_queues_def clear_queues_def events_of_def split: option.splits if_splits)

lemma distinct_queues_cong:
  "cache_events s' = cache_events s \<Longrightarrow> distinct_queues s \<Longrightarrow> distinct_queues s'"
  by (simp add: distinct_queues_def events_of_def)

lemma distinct_queues_events_get_mutex:
  "distinct_queues s \<Longrightarrow> distinct_queues (snd (events_get (mutex_get s)))"
  by (rule distinct_queues_events_get) (simp add: distinct_queues_def)

lemma distinct_queues_subscribe:
  "distinct_queues s \<Longrightarrow> distinct_queues (snd (subscribe field ef cb s))"
  using distinct_queues_events_get_mutex [of s]
  by (cases "events_get (mutex_get s)")
     (auto simp: subscribe_def distinct_queues_subscribe_keys split: sum.splits)

lemma distinct_queues_unsubscribe:
  "distinct_queues s \<Longrightarrow> distinct_queues (snd (unsubscribe field ef cb s))"
  using distinct_queues_events_get_mutex [of s]
  by (cases "events_get (mutex_get s)")
     (auto simp: unsubscribe_def distinct_queues_unsubscribe_keys split: sum.splits)

lemma distinct_queues_unsubscribe_all:
  "distinct_queues s \<Longrightarrow> distinct_queues (snd (unsubscribe_all fld ef s))"
  using distinct_queues_events_get_mutex [of s]
  by (cases "events_get (mutex_get s)")
     (auto simp: unsubscribe_all_def distinct_queues_clear split: sum.splits option.splits)

lemma api_reachable_distinct: "api_reachable s \<Longrightarrow> distinct_queues s"
proof (induction rule: api_reachable.induct)
  case (new ef)
  show ?case by (simp add: distinct_queues_def new_instance_def events_of_def)
next
  case (events s)
  then show ?case by (simp add: distinct_queues_events_get)
next
  case (subscribe s field event_flags cb)
  then show ?case by (simp add: distinct_queues_subscribe)
next
  case (unsubscribe s field event_flags cb)
  then show ?case by (simp add: distinct_queues_unsubscribe)
next
  case (unsubscribe_all s fld event_flags)
  then show ?case by (simp add: distinct_queues_unsubscribe_all)
next
  case (other s s')
  then show ?case using distinct_queues_cong by blast
qed

lemma distinct_count_once: "distinct xs \<Longrightarrow> x \<in> set xs \<Longrightarrow> count_list xs x = 1"
  by (induction xs) auto

lemma is_muted_events: "is_muted s = (m, s') \<Longrightarrow> cache_events s' = cache_events s"
  by (auto simp: is_muted_def split: option.splits)






lemma api_reachable_two_on_x: "api_reachable two_on_x"
  unfolding two_on_x_def
  by (intro api_reachable.subscribe api_reachable.new)
















lemma call_each_returns:
  assumes "keeps_queue call field flag ef q"
  shows "events_of s (field, flag) = Some q \<Longrightarrow> set cbs \<subseteq> set q \<Longrightarrow>
         \<exists>y. call_each call field ef cbs s = Some y"
proof (induction cbs arbitrary: s)
  case Nil
  show ?case by simp
next
  case (Cons cb cbs)
  then have "cb \<in> set q" by simp
  then obtain r s' where c: "call cb field ef s = Some (r, s')"
    and s': "events_of s' (field, flag) = Some q"
    using assms Cons.prems(1) unfolding keeps_queue_def by blast
  show ?case
  proof (cases r)
    case (Inl e)
    then show ?thesis using c by simp
  next
    case (Inr u)
    from Cons.IH [OF s'] Cons.prems(2) obtain y where "call_each call field ef cbs s' = Some y"
      by auto
    then show ?thesis using c Inr by simp
  qed
qed

lemma events_get_again:
  "events_get s = (Inr events, s') \<Longrightarrow> events_get s' = (Inr events, s')"
  by (auto simp: events_get_def Let_def split: option.splits)

lemma build_events_declared:
  "build_events fs Map.empty (field, flag) = Some q \<Longrightarrow>
   q = [] \<and> flag \<in> set EVENT_FLAGS \<and> (\<exists>flags. (field, flags) \<in> set fs \<and> flags AND flag \<noteq> 0)"
proof -
  have *: "build_events fs c (field, flag) = Some q \<Longrightarrow>
           c (field, flag) = Some q
           \<or> (q = [] \<and> flag \<in> set EVENT_FLAGS
               \<and> (\<exists>flags. (field, flags) \<in> set fs \<and> flags AND flag \<noteq> 0))" for c
  proof (induction fs arbitrary: c)
    case Nil
    then show ?case by simp
  next
    case (Cons a fs)
    obtain f flags where a: "a = (f, flags)" by (cases a)
    from Cons.prems Cons.IH [of "fold (\<lambda>flag c. if flags AND flag \<noteq> 0 then c((f, flag) \<mapsto> []) else c)
          EVENT_FLAGS c"] a
    show ?case
      by (auto simp: EVENT_FLAGS_def split: if_splits)
  qed
  assume "build_events fs Map.empty (field, flag) = Some q"
  from * [OF this] show ?thesis by simp
qed

subsection \<open>Claims about \<open>Subscribable\<close>\<close>

text \<open>
  Claim C1, as stated, says that \<open>notify\<close> on an unmuted instance invokes exactly the
  callbacks registered for \<open>(field, flag)\<close>. With callbacks 1 and 2 registered for
  \<open>('x', ON_SET)\<close>, where callback 1 unsubscribes itself when called, \<open>notify\<close> returns
  normally after calling callback 1 only: removing the first element moves callback 2 to
  the index the list iterator has already passed. Callback 2 is registered before and after
  the call and is not invoked.
\<close>

theorem one_shot_callback_skips_next:
  "queue_at ''x'' ON_SET two_on_x = Some [1, 2]
   \<and> \<not> fst (is_muted two_on_x)
   \<and> outcome (notify (callbacks_at one_shot 1) ''x'' ON_SET two_on_x) = Some (Inr ())
   \<and> after (notify (callbacks_at one_shot 1) ''x'' ON_SET two_on_x) journal
       = Some [(1, ''x'', ON_SET)]
   \<and> after (notify (callbacks_at one_shot 1) ''x'' ON_SET two_on_x) (queue_at ''x'' ON_SET)
       = Some (Some [2])"
  by code_simp

text \<open>
  Claim C1, amended: for a single event flag that the field supports, \<open>subscribe\<close> appends a
  callback that is not yet in the queue of \<open>(field, flag)\<close> at its end and leaves the queue
  as it is otherwise, so the queue lists the registered callbacks in registration order; and
  \<open>notify(field, flag)\<close> on an unmuted instance invokes the callbacks of that queue in this
  order, each as \<open>callback(self, field, flag)\<close>, an exception raised by a callback ending
  the notification, provided that every callback returns and none changes that queue while
  \<open>notify\<close> runs; \<open>notify\<close> then returns.
\<close>

theorem notify_calls_queue_in_order:
  assumes "flag \<in> set EVENT_FLAGS"
  shows "(events_get (mutex_get t) = (Inr registered, t0) \<and> registered (field, flag) = Some q \<longrightarrow>
            subscribe field flag cb t =
              (Inr cb, if cb \<in> set q then t0 else set_queue t0 (field, flag) (q @ [cb])))
         \<and> (is_muted s = (False, s1) \<and> events_get s1 = (Inr events, s0)
              \<and> events (field, flag) = Some queue \<and> keeps_queue call field flag flag queue \<longrightarrow>
            notify call field flag s = call_each call field flag queue s0
            \<and> (\<exists>y. notify call field flag s = Some y))"
proof (intro conjI impI)
  assume "events_get (mutex_get t) = (Inr registered, t0) \<and> registered (field, flag) = Some q"
  then show "subscribe field flag cb t =
              (Inr cb, if cb \<in> set q then t0 else set_queue t0 (field, flag) (q @ [cb]))"
    using subscribe_single [OF assms] by blast
next
  assume h: "is_muted s = (False, s1) \<and> events_get s1 = (Inr events, s0)
              \<and> events (field, flag) = Some queue \<and> keeps_queue call field flag flag queue"
  then have n: "notify_inner call field flag s1 = call_each call field flag queue s0"
    using notify_inner_single [OF assms] by blast
  then show eq: "notify call field flag s = call_each call field flag queue s0"
    using h by (simp add: notify_def)
  have "events_of s0 = events" using h events_get_events_of by blast
  then have "events_of s0 (field, flag) = Some queue" using h by simp
  then have "\<exists>y. call_each call field flag queue s0 = Some y"
    using call_each_returns [of call field flag flag queue s0 queue] h by simp
  then show "\<exists>y. notify call field flag s = Some y" using eq by simp
qed

theorem notify_calls_queue_in_order_witness:
  "ON_SET \<in> set EVENT_FLAGS
   \<and> subscribe ''x'' ON_SET 3 two_on_x
       = (Inr 3, set_queue (snd (events_get (mutex_get two_on_x))) (''x'', ON_SET) [1, 2, 3])
   \<and> is_muted two_on_x = (False, snd (is_muted two_on_x))
   \<and> keeps_queue (callbacks_at recorder 1) ''x'' ON_SET ON_SET [1, 2]
   \<and> notify (callbacks_at recorder 1) ''x'' ON_SET two_on_x
       = call_each (callbacks_at recorder 1) ''x'' ON_SET [1, 2]
           (snd (events_get (snd (is_muted two_on_x))))
   \<and> after (notify (callbacks_at recorder 1) ''x'' ON_SET two_on_x) journal
       = Some [(1, ''x'', ON_SET), (2, ''x'', ON_SET)]"
proof -
  let ?call = "callbacks_at recorder 1"
  have f: "ON_SET \<in> set EVENT_FLAGS" by (simp add: EVENT_FLAGS_def)
  have m: "is_muted two_on_x = (False, snd (is_muted two_on_x))"
    by (rule is_muted_collapse) code_simp
  have e: "events_get (snd (is_muted two_on_x))
             = (Inr (events_of (snd (events_get (snd (is_muted two_on_x))))),
                snd (events_get (snd (is_muted two_on_x))))"
    by (rule events_get_collapse) code_simp
  have q: "events_of (snd (events_get (snd (is_muted two_on_x)))) (''x'', ON_SET) = Some [1, 2]"
    by code_simp
  have e': "events_get (mutex_get two_on_x)
             = (Inr (events_of (snd (events_get (mutex_get two_on_x)))),
                snd (events_get (mutex_get two_on_x)))"
    by (rule events_get_collapse) code_simp
  have q': "events_of (snd (events_get (mutex_get two_on_x))) (''x'', ON_SET) = Some [1, 2]"
    by code_simp
  have j: "after (notify ?call ''x'' ON_SET two_on_x) journal
       = Some [(1, ''x'', ON_SET), (2, ''x'', ON_SET)]"
    by code_simp
  have k: "keeps_queue ?call ''x'' ON_SET ON_SET [1, 2]" by (rule keeps_queue_recorder)
  note T = notify_calls_queue_in_order [OF f, of two_on_x
        "events_of (snd (events_get (mutex_get two_on_x)))" "snd (events_get (mutex_get two_on_x))"
        "''x''" "[1, 2]" 3 two_on_x "snd (is_muted two_on_x)"
        "events_of (snd (events_get (snd (is_muted two_on_x))))"
        "snd (events_get (snd (is_muted two_on_x)))" "[1, 2]" ?call]
  have "subscribe ''x'' ON_SET 3 two_on_x
       = (Inr 3, if 3 \<in> set [1, 2::nat] then snd (events_get (mutex_get two_on_x))
                 else set_queue (snd (events_get (mutex_get two_on_x))) (''x'', ON_SET) ([1, 2] @ [3]))"
    by (rule mp [OF conjunct1 [OF T] conjI [OF e' q']])
  then have r1: "subscribe ''x'' ON_SET 3 two_on_x
       = (Inr 3, set_queue (snd (events_get (mutex_get two_on_x))) (''x'', ON_SET) [1, 2, 3])"
    by simp
  have r2: "notify ?call ''x'' ON_SET two_on_x
       = call_each ?call ''x'' ON_SET [1, 2] (snd (events_get (snd (is_muted two_on_x))))"
    by (rule conjunct1 [OF mp [OF conjunct2 [OF T] conjI [OF m conjI [OF e conjI [OF q k]]]]])
  from f r1 m k r2 j show ?thesis by (intro conjI)
qed




text \<open>
  Claim C8, as stated, concludes that \<open>notify\<close> invokes a registered callback exactly once
  per matching event flag. With callbacks 1 and 2 registered for \<open>('x', ON_SET)\<close>, where
  callback 1 unsubscribes and subscribes itself again when called, every queue holds each
  callback at most once at all times, yet one \<open>notify\<close> invokes callback 1 twice and
  callback 2 not at all: the callback moves to the end of the list that is being iterated.
\<close>

theorem requeued_callback_called_twice:
  "queue_at ''x'' ON_SET two_on_x = Some [1, 2]
   \<and> \<not> fst (is_muted two_on_x)
   \<and> outcome (notify (callbacks_at requeue 1) ''x'' ON_SET two_on_x) = Some (Inr ())
   \<and> after (notify (callbacks_at requeue 1) ''x'' ON_SET two_on_x) journal
       = Some [(1, ''x'', ON_SET), (1, ''x'', ON_SET)]
   \<and> after (notify (callbacks_at requeue 1) ''x'' ON_SET two_on_x) (queue_at ''x'' ON_SET)
       = Some (Some [2, 1])"
  by code_simp

text \<open>
  Claim C8, amended: every queue of an instance holds each callback at most once; calling
  \<open>subscribe\<close> again with the same field, the same single flag and a callback that is
  already registered leaves the registry unchanged; and \<open>notify\<close> on an unmuted instance
  goes through the queue, in which a registered callback occurs exactly once, so that it
  invokes the callback once for that flag provided that every callback returns and none
  changes the queue while \<open>notify\<close> runs (an exception raised by a callback ends the
  notification).
\<close>

theorem callback_queued_once:
  "(api_reachable s \<longrightarrow> distinct_queues s)
   \<and> (flag \<in> set EVENT_FLAGS \<and> events_get (mutex_get s) = (Inr events, s0)
        \<and> events (field, flag) = Some queue \<and> cb \<in> set queue \<longrightarrow>
      subscribe field flag cb s = (Inr cb, s0) \<and> events_of s0 = events)
   \<and> (flag \<in> set EVENT_FLAGS \<and> api_reachable s \<and> is_muted s = (False, s1)
        \<and> events_get s1 = (Inr events', s0') \<and> events' (field, flag) = Some queue'
        \<and> cb \<in> set queue' \<and> keeps_queue call field flag flag queue' \<longrightarrow>
      notify call field flag s = call_each call field flag queue' s0'
      \<and> count_list queue' cb = 1
      \<and> (\<exists>y. notify call field flag s = Some y))"
proof -
  have 1: "api_reachable s \<longrightarrow> distinct_queues s" by (simp add: api_reachable_distinct)
  have 2: "subscribe field flag cb s = (Inr cb, s0) \<and> events_of s0 = events"
    if "flag \<in> set EVENT_FLAGS" "events_get (mutex_get s) = (Inr events, s0)"
      "events (field, flag) = Some queue" "cb \<in> set queue"
    using that subscribe_single [OF that(1,2,3), of cb] by (simp add: events_get_events_of)
  have 3: "notify call field flag s = call_each call field flag queue' s0'
      \<and> count_list queue' cb = 1 \<and> (\<exists>y. notify call field flag s = Some y)"
    if h: "flag \<in> set EVENT_FLAGS" "api_reachable s" "is_muted s = (False, s1)"
      "events_get s1 = (Inr events', s0')" "events' (field, flag) = Some queue'"
      "cb \<in> set queue'" "keeps_queue call field flag flag queue'"
  proof -
    have "api_reachable s1" using h(2) is_muted_events [OF h(3)] by (rule api_reachable.other)
    then have "api_reachable (snd (events_get s1))" by (rule api_reachable.events)
    then have "distinct_queues s0'" using h(4) by (simp add: api_reachable_distinct)
    moreover have q: "events_of s0' (field, flag) = Some queue'"
      using events_get_events_of [OF h(4)] h(5) by simp
    ultimately have "distinct queue'" unfolding distinct_queues_def by blast
    then have c: "count_list queue' cb = 1" using h(6) by (simp add: distinct_count_once)
    have eq: "notify call field flag s = call_each call field flag queue' s0'"
      using notify_inner_single [OF h(1,4,5,7)] h(3) by (simp add: notify_def)
    have "\<exists>y. call_each call field flag queue' s0' = Some y"
      using call_each_returns [OF h(7) q, of queue'] by simp
    then show ?thesis using c eq by simp
  qed
  show ?thesis using 1 2 3 by blast
qed

theorem callback_queued_once_witness:
  "ON_SET \<in> set EVENT_FLAGS \<and> api_reachable two_on_x \<and> distinct_queues two_on_x
   \<and> queue_at ''x'' ON_SET two_on_x = Some [1, 2]
   \<and> subscribe ''x'' ON_SET 1 two_on_x = (Inr 1, snd (events_get (mutex_get two_on_x)))
   \<and> queue_at ''x'' ON_SET (snd (subscribe ''x'' ON_SET 1 two_on_x)) = Some [1, 2]
   \<and> is_muted two_on_x = (False, snd (is_muted two_on_x))
   \<and> keeps_queue (callbacks_at recorder 1) ''x'' ON_SET ON_SET [1, 2]
   \<and> notify (callbacks_at recorder 1) ''x'' ON_SET two_on_x
       = call_each (callbacks_at recorder 1) ''x'' ON_SET [1, 2]
           (snd (events_get (snd (is_muted two_on_x))))
   \<and> count_list [1, 2] (1::nat) = 1"
proof -
  have f: "ON_SET \<in> set EVENT_FLAGS" by (simp add: EVENT_FLAGS_def)
  have m: "is_muted two_on_x = (False, snd (is_muted two_on_x))"
    by (rule is_muted_collapse) code_simp
  have e: "events_get (snd (is_muted two_on_x))
             = (Inr (events_of (snd (events_get (snd (is_muted two_on_x))))),
                snd (events_get (snd (is_muted two_on_x))))"
    by (rule events_get_collapse) code_simp
  have q: "events_of (snd (events_get (snd (is_muted two_on_x)))) (''x'', ON_SET) = Some [1, 2]"
    by code_simp
  have e': "events_get (mutex_get two_on_x)
             = (Inr (events_of (snd (events_get (mutex_get two_on_x)))),
                snd (events_get (mutex_get two_on_x)))"
    by (rule events_get_collapse) code_simp
  have q': "events_of (snd (events_get (mutex_get two_on_x))) (''x'', ON_SET) = Some [1, 2]"
    by code_simp
  have q0: "queue_at ''x'' ON_SET two_on_x = Some [1, 2]" by code_simp
  have q1: "queue_at ''x'' ON_SET (snd (subscribe ''x'' ON_SET 1 two_on_x)) = Some [1, 2]"
    by code_simp
  have k: "keeps_queue (callbacks_at recorder 1) ''x'' ON_SET ON_SET [1, 2]"
    by (rule keeps_queue_recorder)
  have one: "(1::nat) \<in> set [1, 2]" by simp
  note T = callback_queued_once [of two_on_x ON_SET
        "events_of (snd (events_get (mutex_get two_on_x)))" "snd (events_get (mutex_get two_on_x))"
        "''x''" "[1, 2]" 1 "snd (is_muted two_on_x)"
        "events_of (snd (events_get (snd (is_muted two_on_x))))"
        "snd (events_get (snd (is_muted two_on_x)))" "[1, 2]" "callbacks_at recorder 1"]
  have r1: "distinct_queues two_on_x"
    by (rule mp [OF conjunct1 [OF T] api_reachable_two_on_x])
  have r2: "subscribe ''x'' ON_SET 1 two_on_x = (Inr 1, snd (events_get (mutex_get two_on_x)))"
    by (rule conjunct1 [OF mp [OF conjunct1 [OF conjunct2 [OF T]]
          conjI [OF f conjI [OF e' conjI [OF q' one]]]]])
  note N = mp [OF conjunct2 [OF conjunct2 [OF T]]
          conjI [OF f conjI [OF api_reachable_two_on_x conjI [OF m conjI [OF e
            conjI [OF q conjI [OF one k]]]]]]]
  have r3: "notify (callbacks_at recorder 1) ''x'' ON_SET two_on_x
       = call_each (callbacks_at recorder 1) ''x'' ON_SET [1, 2]
           (snd (events_get (snd (is_muted two_on_x))))"
    by (rule conjunct1 [OF N])
  have r4: "count_list [1, 2] (1::nat) = 1"
    by (rule conjunct1 [OF conjunct2 [OF N]])
  from f api_reachable_two_on_x r1 q0 r2 q1 m k r3 r4 show ?thesis by (intro conjI)
qed





section \<open>Properties of \<open>create_function\<close>\<close>



lemma globals_for_heap [simp]: "globals_for (st\<lparr>heap := h\<rparr>) globals module = globals_for st globals module"
  by (simp add: globals_for_def split: option.splits)







end
